theory Spec2Isabelle
  imports Main "HOL-Library.Sublist"
begin

section \<open>The buildpack packager (packager.go)\<close>

text \<open>
  The packager runs an optional pre-package command, collects the files to include,
  resolves the declared dependencies and writes one gzip-compressed tar archive to a path
  derived from the buildpack's id and version. The Go functions of \<^verbatim>\<open>packager.go\<close> are
  embedded as HOL functions of the same names. A function with effects returns the list of
  effects it performs, in order, together with its result; an error return of the Go
  function is an error value of the result. What the operating system and the
  collaborators (buildpack metadata, dependency cache, logger) answer is read from the
  records \<open>world\<close> and \<open>Packager\<close>: each answer is a fixed function of the call, so a
  source file is read as it is when the archive is written, and the archive being written
  is not among the source files. The bytes of the gzip and tar encoding are not modelled:
  the archive is the sequence of headers and contents written to it.
\<close>

subsection \<open>Library functions used by the packager\<close>

text \<open>\<^verbatim>\<open>strings.Split(s, sep)\<close> for a one-byte separator: the pieces between the
  separators, a single empty piece for the empty string.\<close>

fun strings_Split :: "string \<Rightarrow> char \<Rightarrow> string list" where
  "strings_Split [] sep = [[]]"
| "strings_Split (c # cs) sep =
     (let r = strings_Split cs sep
      in if c = sep then [] # r else (c # hd r) # tl r)"

text \<open>\<^verbatim>\<open>strings.Join(elems, sep)\<close>.\<close>

fun strings_Join :: "string list \<Rightarrow> string \<Rightarrow> string" where
  "strings_Join [] sep = []"
| "strings_Join [e] sep = e"
| "strings_Join (e # es) sep = e @ sep @ strings_Join es sep"

text \<open>\<^verbatim>\<open>strings.Contains(s, substr)\<close>.\<close>

fun strings_Contains :: "string \<Rightarrow> string \<Rightarrow> bool" where
  "strings_Contains [] sub = (sub = [])"
| "strings_Contains (c # cs) sub = (prefix sub (c # cs) \<or> strings_Contains cs sub)"

text \<open>\<^verbatim>\<open>strings.Replace(s, old, new, 1)\<close>: the leftmost occurrence of \<open>old\<close> is
  replaced by \<open>new\<close>, everything else is kept.\<close>

fun strings_Replace1 :: "string \<Rightarrow> string \<Rightarrow> string \<Rightarrow> string" where
  "strings_Replace1 [] old new = (if old = [] then new else [])"
| "strings_Replace1 (c # cs) old new =
     (if prefix old (c # cs) then new @ drop (length old) (c # cs)
      else c # strings_Replace1 cs old new)"

text \<open>Decimal digits of a number, and Go's \<^verbatim>\<open>appendInt(b, x, width)\<close> of package time:
  the digits padded with zeros on the left to at least \<open>width\<close>.\<close>

fun utoa :: "nat \<Rightarrow> string" where
  "utoa n =
     (if n < 10 then [''0123456789'' ! n]
      else utoa (n div 10) @ [''0123456789'' ! (n mod 10)])"

declare utoa.simps [simp del]

definition appendInt :: "nat \<Rightarrow> nat \<Rightarrow> string" where
  "appendInt x width = (let s = utoa x in replicate (width - length s) CHR ''0'' @ s)"

text \<open>A wall-clock time as \<^verbatim>\<open>time.Now()\<close> returns it, by its calendar fields, and
  \<^verbatim>\<open>Format("20060102.150405")\<close>: year, month, day, a dot, hour, minute, second.\<close>

record time =
  Year :: nat
  Month :: nat
  Day :: nat
  Hour :: nat
  Minute :: nat
  Second :: nat

definition time_Format :: "time \<Rightarrow> string" where
  "time_Format t =
     appendInt (Year t) 4 @ appendInt (Month t) 2 @ appendInt (Day t) 2 @ ''.'' @
     appendInt (Hour t) 2 @ appendInt (Minute t) 2 @ appendInt (Second t) 2"

text \<open>
  \<^verbatim>\<open>filepath.Clean\<close> on a Unix path, element by element. Go's loop reads the path
  left to right and keeps an output buffer: an empty element and \<^verbatim>\<open>.\<close> are skipped,
  \<^verbatim>\<open>..\<close> removes the last real element of the buffer if there is one, is dropped at
  the root of a rooted path, and is kept (and can never be removed again) at the start of
  a path that is not rooted; any other element is appended. The state of the loop is the
  number of leading \<^verbatim>\<open>..\<close> kept and the real elements written so far, last one first.
\<close>

fun clean_step :: "bool \<Rightarrow> nat \<times> string list \<Rightarrow> string \<Rightarrow> nat \<times> string list" where
  "clean_step rooted (ups, out) e =
     (if e = [] \<or> e = ''.'' then (ups, out)
      else if e = ''..'' then
        (case out of _ # out' \<Rightarrow> (ups, out')
         | [] \<Rightarrow> if rooted then (ups, out) else (Suc ups, out))
      else (ups, e # out))"

definition slashed :: "string \<Rightarrow> bool" where
  "slashed path = (path \<noteq> [] \<and> hd path = CHR ''/'')"

definition filepath_Clean :: "string \<Rightarrow> string" where
  "filepath_Clean path =
     (let rooted = slashed path;
          (ups, out) = foldl (clean_step rooted) (0, []) (strings_Split path CHR ''/'');
          elems = replicate ups ''..'' @ rev out
      in if rooted then ''/'' @ strings_Join elems ''/''
         else if elems = [] then ''.'' else strings_Join elems ''/'')"

text \<open>\<^verbatim>\<open>filepath.Join\<close>: leading empty elements are ignored, the rest is joined with
  slashes and cleaned; the empty string if every element is empty.\<close>

fun filepath_Join :: "string list \<Rightarrow> string" where
  "filepath_Join [] = []"
| "filepath_Join (e # es) =
     (if e \<noteq> [] then filepath_Clean (strings_Join (e # es) ''/'') else filepath_Join es)"

text \<open>\<^verbatim>\<open>filepath.Dir\<close>: the path up to and including its last slash, cleaned.\<close>

definition filepath_Dir :: "string \<Rightarrow> string" where
  "filepath_Dir path = filepath_Clean (rev (dropWhile (\<lambda>c. c \<noteq> CHR ''/'') (rev path)))"

text \<open>\<^verbatim>\<open>filepath.Base\<close>: the last element of the path, after removing trailing
  slashes; \<^verbatim>\<open>.\<close> for the empty path and \<^verbatim>\<open>/\<close> for a path of slashes only.\<close>

definition filepath_Base :: "string \<Rightarrow> string" where
  "filepath_Base path =
     (if path = [] then ''.''
      else
        let stripped = rev (dropWhile (\<lambda>c. c = CHR ''/'') (rev path));
            last_elem = rev (takeWhile (\<lambda>c. c \<noteq> CHR ''/'') (rev stripped))
        in if last_elem = [] then ''/'' else last_elem)"

datatype error =
    MissingArgument
  | RelError string string
  | Failure string

text \<open>
  \<^verbatim>\<open>filepath.Rel(basepath, targpath)\<close> on Unix paths. Both paths are cleaned; equal
  paths give \<^verbatim>\<open>.\<close>; a rooted and an unrooted path cannot be related. Otherwise the
  common leading elements are dropped; if the base then continues with \<^verbatim>\<open>..\<close> against
  a different element of the target the result cannot be computed; else the result climbs
  one \<^verbatim>\<open>..\<close> for each element left of the base and descends along what is left of the
  target.
\<close>

definition rel_elems :: "string \<Rightarrow> string list" where
  "rel_elems path =
     (let s = (if slashed path then tl path else path)
      in if s = [] then [] else strings_Split s CHR ''/'')"

fun strip_common :: "string list \<Rightarrow> string list \<Rightarrow> string list \<times> string list" where
  "strip_common (b # bs) (t # ts) =
     (if b = t then strip_common bs ts else (b # bs, t # ts))"
| "strip_common bs ts = (bs, ts)"

definition filepath_Rel :: "string \<Rightarrow> string \<Rightarrow> error + string" where
  "filepath_Rel basepath targpath =
     (let base = filepath_Clean basepath;
          targ = filepath_Clean targpath
      in if targ = base then Inr ''.''
         else
           let base = (if base = ''.'' then [] else base)
           in if slashed base \<noteq> slashed targ then Inl (RelError targpath basepath)
              else
                (case strip_common (rel_elems base) (rel_elems targ) of
                   (bs, ts) \<Rightarrow>
                     if bs \<noteq> [] \<and> ts \<noteq> [] \<and> hd bs = ''..''
                     then Inl (RelError targpath basepath)
                     else if bs \<noteq> []
                     then Inr (strings_Join (replicate (length bs) ''..'' @ ts) ''/'')
                     else Inr (strings_Join ts ''/'')))"

subsection \<open>Data model\<close>

text \<open>The buildpack as the packager sees it. The methods \<^verbatim>\<open>IncludeFiles()\<close>,
  \<^verbatim>\<open>Dependencies()\<close> and \<^verbatim>\<open>PrePackage()\<close> read the loaded metadata; they are
  represented by what they return.\<close>

record Info =
  ID :: string
  Version :: string

record Dependency =
  DepID :: string
  DepVersion :: string

record Buildpack =
  Info :: Info
  Root :: string
  IncludeFiles :: "error + string list"
  Dependencies :: "error + Dependency list"
  PrePackage :: "string option"

text \<open>A cache layer of one dependency: \<^verbatim>\<open>Artifact()\<close> downloads the dependency unless it
  is cached and returns the path of the file, \<^verbatim>\<open>Metadata(root)\<close> is the path of the
  metadata file beside it.\<close>

record DownloadCacheLayer =
  LayerRoot :: string
  Artifact :: "error + string"
  Metadata :: "string \<Rightarrow> string"

record Cache =
  DownloadLayer :: "Dependency \<Rightarrow> DownloadCacheLayer"

datatype versioned = BuildpackV Buildpack | DependencyV Dependency

record Logger =
  PrettyVersion :: "versioned \<Rightarrow> string"

record Packager =
  Buildpack :: Buildpack
  Cache :: Cache
  Logger :: Logger

text \<open>\<^verbatim>\<open>exec.Cmd\<close>, with the error that \<^verbatim>\<open>exec.Command\<close> keeps when it cannot find
  the executable.\<close>

datatype stream = os_Stdout | os_Stderr

record Cmd =
  Path :: string
  Args :: "string list"
  Dir :: string
  Stdout :: "stream option"
  Stderr :: "stream option"
  lookPathErr :: "error option"

text \<open>A source file, what \<^verbatim>\<open>Stat()\<close> reports of it and the tar header the packager
  fills in. The \<^verbatim>\<open>int64\<close> fields hold a file size and a mode of 32 bits, which always
  fit: they are integers here.\<close>

record File =
  contents :: string
  fmode :: nat
  mtime :: time
  stat_error :: "error option"

record FileInfo =
  stat_Size :: int
  stat_Mode :: nat
  stat_ModTime :: time

record Header =
  Name :: string
  Size :: int
  Mode :: int
  ModTime :: time

definition file_Stat :: "File \<Rightarrow> error + FileInfo" where
  "file_Stat f =
     (case stat_error f of
        Some err \<Rightarrow> Inl err
      | None \<Rightarrow>
          Inr \<lparr>stat_Size = int (length (contents f)), stat_Mode = fmode f,
               stat_ModTime = mtime f\<rparr>)"

text \<open>The world outside the packager: the command line, the clock, the files that can be
  opened for reading, and the outcome of each call that can fail.\<close>

record world =
  os_Args :: "string list"
  time_Now :: time
  os_Open :: "string \<Rightarrow> error + File"
  exec_LookPath :: "string \<Rightarrow> error + string"
  run_process :: "Cmd \<Rightarrow> error option"
  os_MkdirAll :: "string \<Rightarrow> error option"
  os_OpenFile :: "string \<Rightarrow> error option"
  tar_WriteHeader :: "Header \<Rightarrow> error option"
  io_Copy :: "Header \<Rightarrow> error option"

text \<open>The effects of a run, in the order they happen.\<close>

datatype open_flag = O_RDWR | O_CREATE | O_TRUNC

datatype event =
    FirstLine string
  | SubsequentLine string
  | Run Cmd
  | DownloadLayerCall Dependency
  | ArtifactCall Dependency
  | MkdirAll string nat
  | OpenFile string "open_flag set" nat
  | WriteHeader Header
  | Copy string
  | CloseTar
  | CloseGzip
  | CloseFile string

text \<open>\<^verbatim>\<open>exec.Command(name, arg...)\<close>: the argument vector is the name followed by the
  arguments given; a name without a slash is looked up in the search path.
  \<^verbatim>\<open>cmd.Run()\<close> returns the error of that lookup if there was one; otherwise it starts
  the process and waits for it, and how the process ends is an answer of the world.\<close>

definition exec_Command :: "world \<Rightarrow> string \<Rightarrow> string list \<Rightarrow> Cmd" where
  "exec_Command w name arg =
     (let cmd = \<lparr>Path = name, Args = name # arg, Dir = [], Stdout = None, Stderr = None,
                 lookPathErr = None\<rparr>
      in if filepath_Base name = name
         then (case exec_LookPath w name of
                 Inl err \<Rightarrow> cmd\<lparr>lookPathErr := Some err\<rparr>
               | Inr lp \<Rightarrow> cmd\<lparr>Path := lp\<rparr>)
         else cmd)"

definition cmd_Run :: "world \<Rightarrow> Cmd \<Rightarrow> error option" where
  "cmd_Run w cmd =
     (case lookPathErr cmd of
        Some err \<Rightarrow> Some err
      | None \<Rightarrow> run_process w cmd)"

subsection \<open>The packager\<close>

text \<open>Modelled from the spec: \<^verbatim>\<open>osArgs\<close> is defined in another file of the repository.
  The spec says of it that the path builder fails if the output-directory argument is
  missing; it returns the command-line argument at the given index, or an error when there
  is none.\<close>

definition osArgs :: "world \<Rightarrow> nat \<Rightarrow> error + string" where
  "osArgs w index =
     (if index < length (os_Args w) then Inr (os_Args w ! index) else Inl MissingArgument)"

definition prePackage :: "world \<Rightarrow> Packager \<Rightarrow> event list \<times> error option" where
  "prePackage w p =
     (case PrePackage (Buildpack p) of
        None \<Rightarrow> ([], None)
      | Some pp \<Rightarrow>
          let cmd = (exec_Command w pp [])
                \<lparr>Stdout := Some os_Stdout, Stderr := Some os_Stderr,
                 Dir := Root (Buildpack p)\<rparr>
          in ([FirstLine (''Pre-Package with '' @ strings_Join (Args cmd) '' ''), Run cmd],
              cmd_Run w cmd))"

text \<open>The body of the loop of \<^verbatim>\<open>cacheDependencies\<close> for one dependency: the calls it
  makes and the artifact and metadata paths relative to the buildpack root.\<close>

definition cacheDependency :: "Packager \<Rightarrow> Dependency \<Rightarrow> event list \<times> (error + string list)" where
  "cacheDependency p dep =
     (let t = [FirstLine (''Caching '' @ PrettyVersion (Logger p) (DependencyV dep)),
               DownloadLayerCall dep, ArtifactCall dep];
          layer = DownloadLayer (Cache p) dep
      in case Artifact layer of
           Inl err \<Rightarrow> (t, Inl err)
         | Inr a \<Rightarrow>
             (case filepath_Rel (Root (Buildpack p)) a of
                Inl err \<Rightarrow> (t, Inl err)
              | Inr artifact \<Rightarrow>
                  (case filepath_Rel (Root (Buildpack p)) (Metadata layer (LayerRoot layer)) of
                     Inl err \<Rightarrow> (t, Inl err)
                   | Inr metadata \<Rightarrow> (t, Inr [artifact, metadata]))))"

fun cacheDependencies_loop ::
  "Packager \<Rightarrow> Dependency list \<Rightarrow> string list \<Rightarrow> event list \<times> (error + string list)" where
  "cacheDependencies_loop p [] files = ([], Inr files)"
| "cacheDependencies_loop p (dep # deps) files =
     (case cacheDependency p dep of
        (t, Inl err) \<Rightarrow> (t, Inl err)
      | (t, Inr pair) \<Rightarrow>
          (case cacheDependencies_loop p deps (files @ pair) of
             (t', r) \<Rightarrow> (t @ t', r)))"

definition cacheDependencies :: "Packager \<Rightarrow> event list \<times> (error + string list)" where
  "cacheDependencies p =
     (case Dependencies (Buildpack p) of
        Inl err \<Rightarrow> ([], Inl err)
      | Inr deps \<Rightarrow> cacheDependencies_loop p deps [])"

definition archivePath :: "world \<Rightarrow> Packager \<Rightarrow> error + string" where
  "archivePath w p =
     (case osArgs w 1 of
        Inl err \<Rightarrow> Inl err
      | Inr dir \<Rightarrow>
          let info = Info (Buildpack p);
              path = [dir] @ strings_Split (ID info) CHR ''.'' @ [ID info, Version info];
              f = ID info @ ''-'' @ Version info @ ''.tgz'';
              f' = strings_Replace1 f ''SNAPSHOT'' (time_Format (time_Now w) @ ''-1'')
          in Inr (filepath_Join (path @ [f'])))"

definition addFile :: "world \<Rightarrow> Packager \<Rightarrow> string \<Rightarrow> event list \<times> error option" where
  "addFile w p path =
     (let t = [SubsequentLine (''Adding '' @ path)]
      in (case os_Open w (filepath_Join [Root (Buildpack p), path]) of
            Inl err \<Rightarrow> (t, Some err)
          | Inr file \<Rightarrow>
              (case file_Stat file of
                 Inl err \<Rightarrow> (t, Some err)
               | Inr stat \<Rightarrow>
                   (let header = \<lparr>Name = path, Size = stat_Size stat,
                                  Mode = int (stat_Mode stat), ModTime = stat_ModTime stat\<rparr>
                    in (case tar_WriteHeader w header of
                          Some err \<Rightarrow> (t @ [WriteHeader header], Some err)
                        | None \<Rightarrow>
                            (t @ [WriteHeader header, Copy (contents file)],
                             io_Copy w header))))))"

fun addFiles :: "world \<Rightarrow> Packager \<Rightarrow> string list \<Rightarrow> event list \<times> error option" where
  "addFiles w p [] = ([], None)"
| "addFiles w p (file # files) =
     (case addFile w p file of
        (t, Some err) \<Rightarrow> (t, Some err)
      | (t, None) \<Rightarrow> (case addFiles w p files of (t', r) \<Rightarrow> (t @ t', r)))"

definition createArchive :: "world \<Rightarrow> Packager \<Rightarrow> string list \<Rightarrow> event list \<times> error option" where
  "createArchive w p files =
     (case archivePath w p of
        Inl err \<Rightarrow> ([], Some err)
      | Inr archive \<Rightarrow>
          (let t = [FirstLine (''Creating archive '' @ archive),
                    MkdirAll (filepath_Dir archive) 493]
           in (case os_MkdirAll w (filepath_Dir archive) of
                 Some err \<Rightarrow> (t, Some err)
               | None \<Rightarrow>
                   (let t' = t @ [OpenFile archive {O_RDWR, O_CREATE, O_TRUNC} 420]
                    in (case os_OpenFile w archive of
                          Some err \<Rightarrow> (t', Some err)
                        | None \<Rightarrow>
                            (case addFiles w p files of
                               (t'', r) \<Rightarrow>
                                 (t' @ t'' @ [CloseTar, CloseGzip, CloseFile archive], r)))))))"

definition Create :: "world \<Rightarrow> Packager \<Rightarrow> event list \<times> error option" where
  "Create w p =
     (let t0 = [FirstLine (''Packaging '' @ PrettyVersion (Logger p) (BuildpackV (Buildpack p)))]
      in case prePackage w p of
           (t1, Some err) \<Rightarrow> (t0 @ t1, Some err)
         | (t1, None) \<Rightarrow>
             (case IncludeFiles (Buildpack p) of
                Inl err \<Rightarrow> (t0 @ t1, Some err)
              | Inr includedFiles \<Rightarrow>
                  (case cacheDependencies p of
                     (t2, Inl err) \<Rightarrow> (t0 @ t1 @ t2, Some err)
                   | (t2, Inr dependencyFiles) \<Rightarrow>
                       (case createArchive w p (includedFiles @ dependencyFiles) of
                          (t3, r) \<Rightarrow> (t0 @ t1 @ t2 @ t3, r)))))"

subsection \<open>Notions used in the statements\<close>

text \<open>The archive path as the specification lays it out: the output directory, the
  segments of the id as nested directories, the id, the version, and the file
  \<^verbatim>\<open><id>-<version>.tgz\<close>, separated by slashes.\<close>

definition layout_path :: "string \<Rightarrow> string \<Rightarrow> string \<Rightarrow> string" where
  "layout_path dir bpid version =
     dir @ ''/'' @ strings_Join (strings_Split bpid CHR ''.'') ''/'' @ ''/'' @ bpid @ ''/'' @
     version @ ''/'' @ bpid @ ''-'' @ version @ ''.tgz''"

text \<open>A path element that \<^verbatim>\<open>filepath.Clean\<close> keeps as it is.\<close>

definition real_elem :: "string \<Rightarrow> bool" where
  "real_elem e = (e \<noteq> [] \<and> e \<noteq> ''.'' \<and> e \<noteq> ''..'')"


text \<open>An output directory, id and version for which joining needs no cleaning: the
  directory is a clean path other than the root and the current directory, the id has no
  empty segment, and neither the id nor the version has a slash or is a dot element.\<close>

definition plain_parts :: "string \<Rightarrow> string \<Rightarrow> string \<Rightarrow> bool" where
  "plain_parts dir bpid version =
     (filepath_Clean dir = dir \<and> dir \<noteq> ''/'' \<and> dir \<noteq> ''.'' \<and>
      [] \<notin> set (strings_Split bpid CHR ''.'') \<and> CHR ''/'' \<notin> set bpid \<and>
      real_elem version \<and> CHR ''/'' \<notin> set version)"

text \<open>What a list of effects wrote to the archive, which commands it ran, which
  dependencies it resolved and which files it opened for writing.\<close>

fun entry_headers :: "event list \<Rightarrow> Header list" where
  "entry_headers [] = []"
| "entry_headers (WriteHeader h # t) = h # entry_headers t"
| "entry_headers (_ # t) = entry_headers t"

definition entry_names :: "event list \<Rightarrow> string list" where
  "entry_names t = map Name (entry_headers t)"

fun commands_run :: "event list \<Rightarrow> Cmd list" where
  "commands_run [] = []"
| "commands_run (Run cmd # t) = cmd # commands_run t"
| "commands_run (_ # t) = commands_run t"

fun artifact_calls :: "event list \<Rightarrow> Dependency list" where
  "artifact_calls [] = []"
| "artifact_calls (ArtifactCall dep # t) = dep # artifact_calls t"
| "artifact_calls (_ # t) = artifact_calls t"

fun files_opened :: "event list \<Rightarrow> (string \<times> open_flag set) list" where
  "files_opened [] = []"
| "files_opened (OpenFile path flags perm # t) = (path, flags) # files_opened t"
| "files_opened (_ # t) = files_opened t"

text \<open>The effects that create, open or write something at the destination.\<close>

fun touches_archive :: "event \<Rightarrow> bool" where
  "touches_archive (MkdirAll path perm) = True"
| "touches_archive (OpenFile path flags perm) = True"
| "touches_archive (WriteHeader h) = True"
| "touches_archive (Copy text) = True"
| "touches_archive CloseTar = True"
| "touches_archive CloseGzip = True"
| "touches_archive (CloseFile path) = True"
| "touches_archive _ = False"




text \<open>The two archive paths of a dependency as the specification describes them: the
  artifact file of its cache layer and the metadata file of the layer, each relative to
  the buildpack root.\<close>

definition artifact_path :: "Packager \<Rightarrow> Dependency \<Rightarrow> error + string" where
  "artifact_path p dep =
     (case Artifact (DownloadLayer (Cache p) dep) of
        Inl err \<Rightarrow> Inl err
      | Inr a \<Rightarrow> filepath_Rel (Root (Buildpack p)) a)"

definition metadata_path :: "Packager \<Rightarrow> Dependency \<Rightarrow> error + string" where
  "metadata_path p dep =
     (let layer = DownloadLayer (Cache p) dep
      in filepath_Rel (Root (Buildpack p)) (Metadata layer (LayerRoot layer)))"

subsection \<open>A packaging run used as the running example\<close>

definition example_time :: time where
  "example_time = \<lparr>Year = 2024, Month = 1, Day = 2, Hour = 3, Minute = 4, Second = 5\<rparr>"

definition example_Info :: "string \<Rightarrow> string \<Rightarrow> Info" where
  "example_Info bpid version = \<lparr>ID = bpid, Version = version\<rparr>"

definition example_dependency :: Dependency where
  "example_dependency = \<lparr>DepID = ''openjdk-jre'', DepVersion = ''11.0.2''\<rparr>"

definition example_Buildpack :: "string \<Rightarrow> string \<Rightarrow> Buildpack" where
  "example_Buildpack bpid version =
     \<lparr>Info = example_Info bpid version, Root = ''/bp'',
      IncludeFiles = Inr [''buildpack.toml'', ''bin/build''],
      Dependencies = Inr [example_dependency],
      PrePackage = Some ''ci/pre package.sh''\<rparr>"

definition example_Cache :: "string \<Rightarrow> Cache" where
  "example_Cache cacheRoot =
     \<lparr>DownloadLayer = (\<lambda>dep.
        \<lparr>LayerRoot = filepath_Join [cacheRoot, DepID dep],
         Artifact = Inr (filepath_Join [cacheRoot, DepID dep, ''jre.tgz'']),
         Metadata = (\<lambda>root. filepath_Join [root, ''dependency.toml''])\<rparr>)\<rparr>"

definition example_Logger :: Logger where
  "example_Logger =
     \<lparr>PrettyVersion = (\<lambda>v. case v of
        BuildpackV b \<Rightarrow> ID (Info b) @ '' '' @ Version (Info b)
      | DependencyV d \<Rightarrow> DepID d @ '' '' @ DepVersion d)\<rparr>"

definition example_Packager :: "string \<Rightarrow> string \<Rightarrow> Packager" where
  "example_Packager bpid version =
     \<lparr>Buildpack = example_Buildpack bpid version, Cache = example_Cache ''/bp/cache'',
      Logger = example_Logger\<rparr>"

definition example_File :: "string \<Rightarrow> File" where
  "example_File text = \<lparr>contents = text, fmode = 420, mtime = example_time, stat_error = None\<rparr>"

definition example_world :: "string list \<Rightarrow> world" where
  "example_world args =
     \<lparr>os_Args = args, time_Now = example_time,
      os_Open = (\<lambda>path.
        if path = ''/bp/buildpack.toml'' then Inr (example_File ''[buildpack]'')
        else if path = ''/bp/bin/build'' then Inr ((example_File ''#!/bin/sh'')\<lparr>fmode := 493\<rparr>)
        else if path = ''/bp/cache/openjdk-jre/jre.tgz'' then Inr (example_File ''JRE'')
        else if path = ''/bp/cache/openjdk-jre/dependency.toml'' then Inr (example_File ''id'')
        else if path = ''/cache/openjdk-jre/jre.tgz'' then Inr (example_File ''JRE'')
        else if path = ''/cache/openjdk-jre/dependency.toml'' then Inr (example_File ''id'')
        else Inl (Failure ''no such file or directory'')),
      exec_LookPath = (\<lambda>name. Inl (Failure ''executable file not found in $PATH'')),
      run_process = (\<lambda>cmd. None),
      os_MkdirAll = (\<lambda>path. None),
      os_OpenFile = (\<lambda>path. None),
      tar_WriteHeader = (\<lambda>header. None),
      io_Copy = (\<lambda>header. None)\<rparr>"

section \<open>Properties\<close>

subsection \<open>Searching and replacing in strings\<close>

lemma Replace1_absent: "\<not> strings_Contains s old \<Longrightarrow> strings_Replace1 s old new = s"
  by (induction s) auto

lemma prefix_before_sep:
  assumes "c \<notin> set sub" "prefix sub (xs @ c # ys)"
  shows "prefix sub xs"
proof -
  from assms(2) consider "prefix sub xs" | us where "sub = xs @ us" "prefix us (c # ys)"
    by (auto simp: prefix_append)
  then show ?thesis
  proof cases
    case 1 then show ?thesis .
  next
    case 2
    with assms(1) have "us = []" by (cases us) (auto simp: prefix_Cons)
    with 2 show ?thesis by simp
  qed
qed

lemma Contains_Nil: "strings_Contains s [] "
  by (cases s) auto

lemma Contains_sep:
  assumes "c \<notin> set sub"
  shows "strings_Contains (a @ c # b) sub \<longleftrightarrow> strings_Contains a sub \<or> strings_Contains b sub"
  using assms
proof (induction a)
  case Nil
  then show ?case by (cases sub) (auto simp: Contains_Nil)
next
  case (Cons x a)
  have "prefix sub (x # a @ c # b) \<longleftrightarrow> prefix sub (x # a)"
    using prefix_before_sep [OF Cons.prems, of "x # a" b] prefix_prefix [of sub "x # a" "c # b"] by auto
  with Cons show ?case by auto
qed

lemma Replace1_skip:
  assumes "c \<notin> set old" "\<not> strings_Contains a old"
  shows "strings_Replace1 (a @ c # b) old new = a @ c # strings_Replace1 b old new"
  using assms
proof (induction a)
  case Nil
  then have "\<not> prefix old (c # b)" by (cases old) (auto simp: prefix_Cons)
  then show ?case by simp
next
  case (Cons x a)
  then have "\<not> prefix old (x # a @ c # b)"
    using prefix_before_sep [of c old "x # a" b] by auto
  with Cons show ?case by auto
qed

lemma SNAPSHOT_border:
  assumes "''SNAPSHOT'' = xs @ us" "xs \<noteq> []" "prefix us (''SNAPSHOT'' @ post)"
  shows "us = []"
proof -
  have "length (xs @ us) = 8"
    by (simp only: assms(1) [symmetric]) simp
  then have len: "length xs + length us = 8" by simp
  have "suffix us ''SNAPSHOT''" using assms(1) by (metis suffixI)
  then have "us \<in> set (suffixes ''SNAPSHOT'')" by (simp only: in_set_suffixes)
  then have disj: "us = [] \<or> us = ''T'' \<or> us = ''OT'' \<or> us = ''HOT'' \<or> us = ''SHOT''
    \<or> us = ''PSHOT'' \<or> us = ''APSHOT'' \<or> us = ''NAPSHOT'' \<or> us = ''SNAPSHOT''"
    by simp
  have n8: "us \<noteq> ''SNAPSHOT''" using len assms(2) by auto
  have n1: "us \<noteq> ''T''" using assms(3) by auto
  have n2: "us \<noteq> ''OT''" using assms(3) by auto
  have n3: "us \<noteq> ''HOT''" using assms(3) by auto
  have n4: "us \<noteq> ''SHOT''" using assms(3) by auto
  have n5: "us \<noteq> ''PSHOT''" using assms(3) by auto
  have n6: "us \<noteq> ''APSHOT''" using assms(3) by auto
  have n7: "us \<noteq> ''NAPSHOT''" using assms(3) by auto
  from disj show ?thesis by (simp only: n1 n2 n3 n4 n5 n6 n7 n8 simp_thms)
qed

lemma no_early_SNAPSHOT:
  assumes "\<not> strings_Contains (x # pre) ''SNAPSHOT''"
  shows "\<not> prefix ''SNAPSHOT'' ((x # pre) @ ''SNAPSHOT'' @ post)"
proof
  assume "prefix ''SNAPSHOT'' ((x # pre) @ ''SNAPSHOT'' @ post)"
  then have "prefix ''SNAPSHOT'' (x # pre) \<or>
      (\<exists>us. ''SNAPSHOT'' = (x # pre) @ us \<and> prefix us (''SNAPSHOT'' @ post))"
    by (simp only: prefix_append)
  moreover have "\<not> prefix ''SNAPSHOT'' (x # pre)"
    using assms by (simp only: strings_Contains.simps) blast
  ultimately obtain us where us: "''SNAPSHOT'' = (x # pre) @ us" "prefix us (''SNAPSHOT'' @ post)"
    by blast
  have "us = []" by (rule SNAPSHOT_border [OF us(1) _ us(2)]) simp
  with us(1) have "''SNAPSHOT'' = x # pre" by (simp only: append_Nil2)
  then have "prefix ''SNAPSHOT'' (x # pre)" by (simp only: prefix_order.refl)
  with \<open>\<not> prefix ''SNAPSHOT'' (x # pre)\<close> show False ..
qed

lemma Replace1_prefix:
  "prefix old s \<Longrightarrow> strings_Replace1 s old new = new @ drop (length old) s"
  by (cases s) auto

lemma Replace1_first_gen:
  assumes nb: "\<And>x xs. \<not> strings_Contains (x # xs) old \<Longrightarrow> \<not> prefix old ((x # xs) @ old @ post)"
    and "\<not> strings_Contains pre old"
  shows "strings_Replace1 (pre @ old @ post) old new = pre @ new @ post"
  using assms(2)
proof (induction pre)
  case Nil
  show ?case using Replace1_prefix [of old "old @ post" new] by simp
next
  case (Cons x pre)
  from nb [OF Cons.prems] have "\<not> prefix old (x # pre @ old @ post)" by simp
  with Cons show ?case by simp
qed

lemma Replace1_first_SNAPSHOT:
  assumes "\<not> strings_Contains pre ''SNAPSHOT''"
  shows "strings_Replace1 (pre @ ''SNAPSHOT'' @ post) ''SNAPSHOT'' new = pre @ new @ post"
proof (rule Replace1_first_gen)
  fix x xs
  assume "\<not> strings_Contains (x # xs) ''SNAPSHOT''"
  then show "\<not> prefix ''SNAPSHOT'' ((x # xs) @ ''SNAPSHOT'' @ post)"
    by (rule no_early_SNAPSHOT)
next
  show "\<not> strings_Contains pre ''SNAPSHOT''" by fact
qed

subsection \<open>Splitting, joining and cleaning paths\<close>

lemma Split_not_Nil: "strings_Split s c \<noteq> []"
  by (induction s) (auto simp: Let_def)

lemma Split_append_sep: "strings_Split (a @ c # b) c = strings_Split a c @ strings_Split b c"
proof (induction a)
  case Nil
  show ?case by simp
next
  case (Cons x a)
  then show ?case using Split_not_Nil [of a c] by (cases "strings_Split a c") (auto simp: Let_def)
qed

lemma Split_no_sep: "c \<notin> set e \<Longrightarrow> strings_Split e c = [e]"
  by (induction e) (auto simp: Let_def)

lemma Split_elem_subset: "e \<in> set (strings_Split s c) \<Longrightarrow> set e \<subseteq> set s - {c}"
proof (induction s arbitrary: e)
  case Nil
  then show ?case by simp
next
  case (Cons x s)
  obtain r rs where r: "strings_Split s c = r # rs"
    using Split_not_Nil [of s c] by (cases "strings_Split s c") auto
  with Cons.IH have "set r \<subseteq> set s - {c}" "\<And>e. e \<in> set rs \<Longrightarrow> set e \<subseteq> set s - {c}"
    by auto
  with Cons.prems r show ?case by (auto simp: Let_def split: if_splits)
qed

lemma Join_Cons: "es \<noteq> [] \<Longrightarrow> strings_Join (e # es) sep = e @ sep @ strings_Join es sep"
  by (cases es) auto

lemma Join_append:
  "xs \<noteq> [] \<Longrightarrow> ys \<noteq> [] \<Longrightarrow>
   strings_Join (xs @ ys) sep = strings_Join xs sep @ sep @ strings_Join ys sep"
proof (induction xs)
  case Nil
  then show ?case by simp
next
  case (Cons x xs)
  then show ?case by (cases "xs = []") (auto simp: Join_Cons)
qed

lemma Split_Join:
  "es \<noteq> [] \<Longrightarrow> \<forall>e\<in>set es. c \<notin> set e \<Longrightarrow> strings_Split (strings_Join es [c]) c = es"
proof (induction es)
  case Nil
  then show ?case by simp
next
  case (Cons e es)
  show ?case
  proof (cases "es = []")
    case True
    with Cons.prems show ?thesis by (simp add: Split_no_sep)
  next
    case False
    with Cons show ?thesis by (simp add: Join_Cons Split_append_sep Split_no_sep)
  qed
qed

lemma foldl_clean_real:
  "\<forall>e\<in>set es. real_elem e \<Longrightarrow>
   foldl (clean_step r) (ups, out) es = (ups, rev es @ out)"
  by (induction es arbitrary: out) (auto simp: real_elem_def)

lemma foldl_clean_elems:
  "foldl (clean_step r) (ups, out) es = (ups', out') \<Longrightarrow>
   set out' \<subseteq> set out \<union> {e \<in> set es. real_elem e}"
proof (induction es arbitrary: ups out)
  case Nil
  then show ?case by simp
next
  case (Cons e es)
  obtain u1 o1 where s1: "clean_step r (ups, out) e = (u1, o1)"
    by (cases "clean_step r (ups, out) e")
  then have "set o1 \<subseteq> set out \<union> {x. x = e \<and> real_elem e}"
    by (auto simp: real_elem_def split: if_splits list.splits)
  moreover from Cons.prems s1 have "foldl (clean_step r) (u1, o1) es = (ups', out')" by simp
  from Cons.IH [OF this] have "set out' \<subseteq> set o1 \<union> {e \<in> set es. real_elem e}" .
  ultimately show ?case by auto
qed


lemma Join_not_Nil: "es \<noteq> [] \<Longrightarrow> \<forall>e\<in>set es. e \<noteq> [] \<Longrightarrow> strings_Join es sep \<noteq> []"
  by (cases es; cases "tl es") auto

lemma Clean_not_Nil: "filepath_Clean d \<noteq> []"
proof -
  obtain ups out where f: "foldl (clean_step (slashed d)) (0, []) (strings_Split d CHR ''/'') = (ups, out)"
    by (cases "foldl (clean_step (slashed d)) (0, []) (strings_Split d CHR ''/'')")
  from foldl_clean_elems [OF f] have "\<forall>e\<in>set (replicate ups ''..'' @ rev out). e \<noteq> []"
    by (auto simp: real_elem_def)
  then have "replicate ups ''..'' @ rev out \<noteq> [] \<Longrightarrow>
      strings_Join (replicate ups ''..'' @ rev out) ''/'' \<noteq> []"
    by (rule Join_not_Nil [rotated])
  then show ?thesis by (auto simp: filepath_Clean_def f Let_def split: if_splits)
qed

lemma Clean_eq:
  assumes "foldl (clean_step (slashed p)) (0, []) (strings_Split p CHR ''/'') = (ups, out)"
  shows "filepath_Clean p =
     (if slashed p then ''/'' @ strings_Join (replicate ups ''..'' @ rev out) ''/''
      else if replicate ups ''..'' @ rev out = [] then ''.''
      else strings_Join (replicate ups ''..'' @ rev out) ''/'')"
  using assms by (simp add: filepath_Clean_def)

lemma Clean_extend:
  assumes d: "filepath_Clean d = d" "d \<noteq> ''/''" "d \<noteq> ''.''"
    and es: "es \<noteq> []" "\<forall>e\<in>set es. real_elem e \<and> CHR ''/'' \<notin> set e"
  shows "filepath_Clean (d @ ''/'' @ strings_Join es ''/'') = d @ ''/'' @ strings_Join es ''/''"
proof -
  define P where "P = d @ ''/'' @ strings_Join es ''/''"
  from d(1) have "d \<noteq> []" using Clean_not_Nil [of d] by auto
  then have sl: "slashed P = slashed d"
    by (cases d) (auto simp: slashed_def P_def)
  obtain ups out where f: "foldl (clean_step (slashed d)) (0, []) (strings_Split d CHR ''/'') = (ups, out)"
    by (cases "foldl (clean_step (slashed d)) (0, []) (strings_Split d CHR ''/'')")
  have sp: "strings_Split P CHR ''/'' = strings_Split d CHR ''/'' @ es"
    using es by (simp add: P_def Split_append_sep Split_Join)
  have "foldl (clean_step (slashed d)) (0, []) (strings_Split d CHR ''/'' @ es)
      = foldl (clean_step (slashed d)) (ups, out) es"
    by (simp only: foldl_append f)
  also have "\<dots> = (ups, rev es @ out)"
    using es by (intro foldl_clean_real) simp
  finally have f': "foldl (clean_step (slashed P)) (0, []) (strings_Split P CHR ''/'') = (ups, rev es @ out)"
    by (simp only: sp sl)
  let ?elems = "replicate ups ''..'' @ rev out"
  have dd: "d = (if slashed d then ''/'' @ strings_Join ?elems ''/''
         else if ?elems = [] then ''.'' else strings_Join ?elems ''/'')"
    using d(1) [symmetric] Clean_eq [OF f] by (rule trans)
  have ne: "?elems \<noteq> []"
  proof
    assume "?elems = []"
    with dd d(2,3) show False by (auto split: if_splits)
  qed
  have J: "strings_Join (?elems @ es) ''/'' = strings_Join ?elems ''/'' @ ''/'' @ strings_Join es ''/''"
    using ne es(1) by (rule Join_append)
  have "filepath_Clean P =
      (if slashed d then ''/'' @ strings_Join (?elems @ es) ''/'' else strings_Join (?elems @ es) ''/'')"
    using es(1) Clean_eq [OF f'] by (simp add: sl)
  also have "\<dots> = (if slashed d then ''/'' @ strings_Join ?elems ''/'' else strings_Join ?elems ''/'')
       @ ''/'' @ strings_Join es ''/''"
    by (simp only: J) simp
  also have "(if slashed d then ''/'' @ strings_Join ?elems ''/'' else strings_Join ?elems ''/'') = d"
  proof (cases "slashed d")
    case True
    with dd have "d = ''/'' @ strings_Join ?elems ''/''" by (simp only: if_True)
    with True show ?thesis by (simp only: if_True)
  next
    case False
    with dd ne have "d = strings_Join ?elems ''/''" by (simp only: if_False)
    with False show ?thesis by (simp only: if_False)
  qed
  finally show ?thesis by (simp only: P_def)
qed

lemma tgz_name_no_SNAPSHOT:
  assumes "\<not> strings_Contains bpid ''SNAPSHOT''" "\<not> strings_Contains version ''SNAPSHOT''"
  shows "\<not> strings_Contains (bpid @ ''-'' @ version @ ''.tgz'') ''SNAPSHOT''"
proof -
  have "\<not> strings_Contains (version @ ''.tgz'') ''SNAPSHOT''"
    using assms(2) by (simp add: Contains_sep)
  then show ?thesis using assms(1) by (simp add: Contains_sep)
qed

lemma Join_dir_plain:
  assumes "filepath_Clean dir = dir" "dir \<noteq> ''/''" "dir \<noteq> ''.''"
    and "es \<noteq> []" "\<forall>e\<in>set es. real_elem e \<and> CHR ''/'' \<notin> set e"
  shows "filepath_Join (dir # es) = dir @ ''/'' @ strings_Join es ''/''"
proof -
  from assms(1) have "dir \<noteq> []" using Clean_not_Nil [of dir] by auto
  then have "filepath_Join (dir # es) = filepath_Clean (dir @ ''/'' @ strings_Join es ''/'')"
    using assms(4) by (simp add: Join_Cons)
  also have "\<dots> = dir @ ''/'' @ strings_Join es ''/''"
    using assms by (rule Clean_extend)
  finally show ?thesis .
qed

lemma plain_parts_elems:
  assumes "plain_parts dir bpid version"
  shows "\<forall>e\<in>set (strings_Split bpid CHR ''.'' @ [bpid, version, bpid @ ''-'' @ version @ ''.tgz'']).
           real_elem e \<and> CHR ''/'' \<notin> set e"
proof -
  from assms have ne: "[] \<notin> set (strings_Split bpid CHR ''.'')" and sl: "CHR ''/'' \<notin> set bpid"
    and v: "real_elem version" "CHR ''/'' \<notin> set version"
    by (auto simp: plain_parts_def)
  have seg: "real_elem e \<and> CHR ''/'' \<notin> set e" if "e \<in> set (strings_Split bpid CHR ''.'')" for e
  proof -
    from Split_elem_subset [OF that] have "set e \<subseteq> set bpid - {CHR ''.''}" .
    with sl have "CHR ''.'' \<notin> set e" "CHR ''/'' \<notin> set e" by auto
    moreover from that ne have "e \<noteq> []" by auto
    ultimately show ?thesis by (auto simp: real_elem_def)
  qed
  have b: "real_elem bpid"
  proof -
    have "bpid \<noteq> []" "bpid \<noteq> ''.''" "bpid \<noteq> ''..''" using ne by auto
    then show ?thesis by (simp add: real_elem_def)
  qed
  have "CHR ''-'' \<in> set (bpid @ ''-'' @ version @ ''.tgz'')" by simp
  moreover have "CHR ''-'' \<notin> set ''.''" "CHR ''-'' \<notin> set ''..''" "CHR ''-'' \<notin> set []"
    by simp_all
  ultimately have f: "real_elem (bpid @ ''-'' @ version @ ''.tgz'')"
    unfolding real_elem_def by metis
  show ?thesis using seg b v sl f by auto
qed

subsection \<open>The archive path\<close>

lemma layout_path_Join:
  "layout_path dir bpid version =
     dir @ ''/'' @ strings_Join (strings_Split bpid CHR ''.'' @
        [bpid, version, bpid @ ''-'' @ version @ ''.tgz'']) ''/''"
proof -
  have "strings_Join (strings_Split bpid CHR ''.'' @ [bpid, version, bpid @ ''-'' @ version @ ''.tgz'']) ''/''
      = strings_Join (strings_Split bpid CHR ''.'') ''/'' @ ''/'' @
        strings_Join [bpid, version, bpid @ ''-'' @ version @ ''.tgz''] ''/''"
    by (rule Join_append) (simp_all add: Split_not_Nil)
  then show ?thesis by (simp add: layout_path_def)
qed

text \<open>
  C1 (amended). When neither the id nor the version contains \<^verbatim>\<open>SNAPSHOT\<close>, the path
  builder returns \<^verbatim>\<open>filepath.Join\<close> of the output directory, the dot-separated segments
  of the id, the id, the version and the file name \<^verbatim>\<open><id>-<version>.tgz\<close>; when in
  addition the output directory is a clean path other than \<^verbatim>\<open>/\<close> and \<^verbatim>\<open>.\<close>, the id
  has no empty segment and neither the id nor the version has a slash or is a dot element,
  that is literally
  \<^verbatim>\<open><outputDir>/<id segments>/<id>/<version>/<id>-<version>.tgz\<close>.
\<close>

theorem archivePath_layout:
  assumes "osArgs w 1 = Inr dir"
    and "ID (Info (Buildpack p)) = bpid" "Version (Info (Buildpack p)) = version"
    and "\<not> strings_Contains bpid ''SNAPSHOT''" "\<not> strings_Contains version ''SNAPSHOT''"
  shows "archivePath w p =
           Inr (filepath_Join (dir # strings_Split bpid CHR ''.'' @
                  [bpid, version, bpid @ ''-'' @ version @ ''.tgz''])) \<and>
         (plain_parts dir bpid version \<longrightarrow> archivePath w p = Inr (layout_path dir bpid version))"
proof -
  let ?f = "bpid @ ''-'' @ version @ ''.tgz''"
  let ?es = "strings_Split bpid CHR ''.'' @ [bpid, version, ?f]"
  have "\<not> strings_Contains ?f ''SNAPSHOT''"
    using assms(4,5) by (rule tgz_name_no_SNAPSHOT)
  then have "strings_Replace1 ?f ''SNAPSHOT'' (time_Format (time_Now w) @ ''-1'') = ?f"
    by (rule Replace1_absent)
  then have A: "archivePath w p = Inr (filepath_Join (dir # ?es))"
    using assms(1,2,3) by (simp add: archivePath_def)
  have "filepath_Join (dir # ?es) = layout_path dir bpid version" if pp: "plain_parts dir bpid version"
  proof -
    from pp have d: "filepath_Clean dir = dir" "dir \<noteq> ''/''" "dir \<noteq> ''.''"
      by (simp_all add: plain_parts_def)
    have "?es \<noteq> []" by simp
    with d have "filepath_Join (dir # ?es) = dir @ ''/'' @ strings_Join ?es ''/''"
      using plain_parts_elems [OF pp] by (rule Join_dir_plain)
    then show ?thesis by (simp only: layout_path_Join)
  qed
  with A show ?thesis by simp
qed

text \<open>The scenario of the specification: id \<^verbatim>\<open>com.example.buildpack\<close>, version
  \<^verbatim>\<open>1.2.3\<close>, output directory \<^verbatim>\<open>/out\<close>.\<close>

theorem archivePath_layout_witness:
  "archivePath (example_world [''packager'', ''/out'']) (example_Packager ''com.example.buildpack'' ''1.2.3'')
     = Inr ''/out/com/example/buildpack/com.example.buildpack/1.2.3/com.example.buildpack-1.2.3.tgz''"
proof -
  have h1: "osArgs (example_world [''packager'', ''/out'']) 1 = Inr ''/out''"
    by (simp add: osArgs_def example_world_def)
  have h2: "ID (Info (Buildpack (example_Packager ''com.example.buildpack'' ''1.2.3''))) = ''com.example.buildpack''"
    and h3: "Version (Info (Buildpack (example_Packager ''com.example.buildpack'' ''1.2.3''))) = ''1.2.3''"
    by (simp_all add: example_Packager_def example_Buildpack_def example_Info_def)
  have h4: "\<not> strings_Contains ''com.example.buildpack'' ''SNAPSHOT''"
    and h5: "\<not> strings_Contains ''1.2.3'' ''SNAPSHOT''"
    by simp_all
  have h6: "plain_parts ''/out'' ''com.example.buildpack'' ''1.2.3''"
    by (simp add: plain_parts_def filepath_Clean_def slashed_def real_elem_def)
  have h7: "layout_path ''/out'' ''com.example.buildpack'' ''1.2.3'' =
      ''/out/com/example/buildpack/com.example.buildpack/1.2.3/com.example.buildpack-1.2.3.tgz''"
    by (simp add: layout_path_def)
  from archivePath_layout [OF h1 h2 h3 h4 h5]
  have "plain_parts ''/out'' ''com.example.buildpack'' ''1.2.3'' \<longrightarrow>
      archivePath (example_world [''packager'', ''/out''])
        (example_Packager ''com.example.buildpack'' ''1.2.3'')
      = Inr (layout_path ''/out'' ''com.example.buildpack'' ''1.2.3'')"
    by (rule conjunct2)
  then show ?thesis using h6 by (simp only: h7)
qed

text \<open>The layout does not hold for every version and output directory: a
  \<^verbatim>\<open>SNAPSHOT\<close> version gets a time stamp in the file name, and an output directory
  given with a trailing slash is cleaned.\<close>

theorem archivePath_layout_counterexample:
  "archivePath (example_world [''packager'', ''/out'']) (example_Packager ''org.example.jvm'' ''2.0.0-SNAPSHOT'')
     \<noteq> Inr (layout_path ''/out'' ''org.example.jvm'' ''2.0.0-SNAPSHOT'') \<and>
   archivePath (example_world [''packager'', ''/out/'']) (example_Packager ''org.example.jvm'' ''2.0.0'')
     \<noteq> Inr (layout_path ''/out/'' ''org.example.jvm'' ''2.0.0'')"
  by (simp add: archivePath_def osArgs_def example_world_def example_Packager_def
      example_Buildpack_def example_Info_def layout_path_def filepath_Clean_def slashed_def
      time_Format_def appendInt_def utoa.simps example_time_def)

text \<open>
  C2 (amended). When the id does not contain \<^verbatim>\<open>SNAPSHOT\<close> and the version is
  \<^verbatim>\<open>pre SNAPSHOT post\<close> with no \<^verbatim>\<open>SNAPSHOT\<close> in \<open>pre\<close>, the path builder replaces
  exactly that first occurrence by the time stamp (\<^verbatim>\<open>YYYYMMDD.HHMMSS\<close>) followed by
  \<^verbatim>\<open>-1\<close> in the file name of the archive and keeps \<open>post\<close>, with any further
  occurrence, as it is; the version directory of the path keeps the version unchanged.
\<close>

theorem archivePath_snapshot:
  assumes "osArgs w 1 = Inr dir"
    and "ID (Info (Buildpack p)) = bpid"
    and "Version (Info (Buildpack p)) = pre @ ''SNAPSHOT'' @ post"
    and "\<not> strings_Contains bpid ''SNAPSHOT''" "\<not> strings_Contains pre ''SNAPSHOT''"
  shows "archivePath w p =
           Inr (filepath_Join (dir # strings_Split bpid CHR ''.'' @
                  [bpid, pre @ ''SNAPSHOT'' @ post,
                   bpid @ ''-'' @ pre @ time_Format (time_Now w) @ ''-1'' @ post @ ''.tgz'']))"
proof -
  let ?new = "time_Format (time_Now w) @ ''-1''"
  have "strings_Replace1 (bpid @ CHR ''-'' # (pre @ ''SNAPSHOT'' @ (post @ ''.tgz''))) ''SNAPSHOT'' ?new
      = bpid @ CHR ''-'' # strings_Replace1 (pre @ ''SNAPSHOT'' @ (post @ ''.tgz'')) ''SNAPSHOT'' ?new"
    using assms(4) by (intro Replace1_skip) simp_all
  also have "strings_Replace1 (pre @ ''SNAPSHOT'' @ (post @ ''.tgz'')) ''SNAPSHOT'' ?new
      = pre @ ?new @ (post @ ''.tgz'')"
    using assms(5) by (rule Replace1_first_SNAPSHOT)
  finally have "strings_Replace1 (bpid @ ''-'' @ (pre @ ''SNAPSHOT'' @ post) @ ''.tgz'') ''SNAPSHOT'' ?new
      = bpid @ ''-'' @ pre @ time_Format (time_Now w) @ ''-1'' @ post @ ''.tgz''"
    by simp
  then show ?thesis using assms(1,2,3) by (simp add: archivePath_def)
qed

text \<open>The scenario of the specification: version \<^verbatim>\<open>1.2.3.SNAPSHOT\<close> at
  2024-01-02T03:04:05.\<close>

theorem archivePath_snapshot_witness:
  "archivePath (example_world [''packager'', ''/out''])
     (example_Packager ''com.example.buildpack'' ''1.2.3.SNAPSHOT'')
   = Inr ''/out/com/example/buildpack/com.example.buildpack/1.2.3.SNAPSHOT/com.example.buildpack-1.2.3.20240102.030405-1.tgz''"
proof -
  have h1: "osArgs (example_world [''packager'', ''/out'']) 1 = Inr ''/out''"
    by (simp add: osArgs_def example_world_def)
  have h2: "ID (Info (Buildpack (example_Packager ''com.example.buildpack'' ''1.2.3.SNAPSHOT'')))
      = ''com.example.buildpack''"
    by (simp add: example_Packager_def example_Buildpack_def example_Info_def)
  have h3: "Version (Info (Buildpack (example_Packager ''com.example.buildpack'' ''1.2.3.SNAPSHOT'')))
      = ''1.2.3.'' @ ''SNAPSHOT'' @ []"
    by (simp add: example_Packager_def example_Buildpack_def example_Info_def)
  have h4: "\<not> strings_Contains ''com.example.buildpack'' ''SNAPSHOT''"
    and h5: "\<not> strings_Contains ''1.2.3.'' ''SNAPSHOT''"
    by simp_all
  have t: "time_Format (time_Now (example_world [''packager'', ''/out''])) = ''20240102.030405''"
    by (simp add: example_world_def example_time_def time_Format_def appendInt_def utoa.simps)
  show ?thesis
    using archivePath_snapshot [OF h1 h2 h3 h4 h5]
    by (simp add: t filepath_Clean_def slashed_def)
qed

text \<open>In that scenario the version directory of the produced path is still
  \<^verbatim>\<open>1.2.3.SNAPSHOT\<close>: the path is not the layout of the substituted version. And when the
  id itself contains \<^verbatim>\<open>SNAPSHOT\<close>, the occurrence in the version is not replaced.\<close>

theorem archivePath_snapshot_counterexample:
  "archivePath (example_world [''packager'', ''/out''])
     (example_Packager ''com.example.buildpack'' ''1.2.3.SNAPSHOT'')
   = Inr ''/out/com/example/buildpack/com.example.buildpack/1.2.3.SNAPSHOT/com.example.buildpack-1.2.3.20240102.030405-1.tgz'' \<and>
   strings_Replace1 ''1.2.3.SNAPSHOT'' ''SNAPSHOT'' (time_Format example_time @ ''-1'')
   = ''1.2.3.20240102.030405-1'' \<and>
   archivePath (example_world [''packager'', ''/out''])
     (example_Packager ''com.example.buildpack'' ''1.2.3.SNAPSHOT'')
   \<noteq> Inr (layout_path ''/out'' ''com.example.buildpack'' ''1.2.3.20240102.030405-1'') \<and>
   archivePath (example_world [''packager'', ''/out''])
     (example_Packager ''org.SNAPSHOT.bp'' ''1.SNAPSHOT'')
   = Inr ''/out/org/SNAPSHOT/bp/org.SNAPSHOT.bp/1.SNAPSHOT/org.20240102.030405-1.bp-1.SNAPSHOT.tgz''"
  by (simp add: archivePath_def osArgs_def example_world_def example_Packager_def
      example_Buildpack_def example_Info_def layout_path_def filepath_Clean_def slashed_def
      time_Format_def appendInt_def utoa.simps example_time_def)

text \<open>
  C4 (amended). When neither the id nor the version contains \<^verbatim>\<open>SNAPSHOT\<close>, the path
  builder returns the same result at any two times, for the same command line and
  buildpack.
\<close>

theorem archivePath_time_independent:
  assumes "\<not> strings_Contains (ID (Info (Buildpack p))) ''SNAPSHOT''"
    and "\<not> strings_Contains (Version (Info (Buildpack p))) ''SNAPSHOT''"
  shows "archivePath (w\<lparr>time_Now := t1\<rparr>) p = archivePath (w\<lparr>time_Now := t2\<rparr>) p"
proof -
  have "strings_Replace1 (ID (Info (Buildpack p)) @ ''-'' @ Version (Info (Buildpack p)) @ ''.tgz'')
          ''SNAPSHOT'' new
        = ID (Info (Buildpack p)) @ ''-'' @ Version (Info (Buildpack p)) @ ''.tgz''" for new
    using tgz_name_no_SNAPSHOT [OF assms] by (rule Replace1_absent)
  then show ?thesis by (simp add: archivePath_def osArgs_def Let_def del: filepath_Join.simps)
qed

text \<open>The scenario of the specification, one second apart.\<close>

theorem archivePath_time_independent_witness:
  "archivePath ((example_world [''packager'', ''/out''])\<lparr>time_Now := example_time\<rparr>)
     (example_Packager ''com.example.buildpack'' ''1.2.3'')
   = archivePath ((example_world [''packager'', ''/out''])\<lparr>time_Now := example_time\<lparr>Second := 6\<rparr>\<rparr>)
     (example_Packager ''com.example.buildpack'' ''1.2.3'')"
proof -
  have h1: "\<not> strings_Contains (ID (Info (Buildpack (example_Packager ''com.example.buildpack'' ''1.2.3'')))) ''SNAPSHOT''"
    and h2: "\<not> strings_Contains (Version (Info (Buildpack (example_Packager ''com.example.buildpack'' ''1.2.3'')))) ''SNAPSHOT''"
    by (simp_all add: example_Packager_def example_Buildpack_def example_Info_def)
  show ?thesis by (rule archivePath_time_independent [OF h1 h2])
qed

text \<open>A version without \<^verbatim>\<open>SNAPSHOT\<close> is not enough: the replacement is made in the
  file name, which starts with the id.\<close>

theorem archivePath_time_independent_counterexample:
  "\<not> strings_Contains ''1.0.0'' ''SNAPSHOT'' \<and>
   archivePath ((example_world [''packager'', ''/out''])\<lparr>time_Now := example_time\<rparr>)
     (example_Packager ''org.example.SNAPSHOT'' ''1.0.0'')
   \<noteq> archivePath ((example_world [''packager'', ''/out''])\<lparr>time_Now := example_time\<lparr>Second := 6\<rparr>\<rparr>)
     (example_Packager ''org.example.SNAPSHOT'' ''1.0.0'')"
  by (simp add: archivePath_def osArgs_def example_world_def example_Packager_def
      example_Buildpack_def example_Info_def filepath_Clean_def slashed_def
      time_Format_def appendInt_def utoa.simps example_time_def)

subsection \<open>Effects of the stages\<close>

lemma entry_headers_append: "entry_headers (t @ t') = entry_headers t @ entry_headers t'"
  by (induction t rule: entry_headers.induct) simp_all

lemma commands_run_append: "commands_run (t @ t') = commands_run t @ commands_run t'"
  by (induction t rule: commands_run.induct) simp_all

lemma artifact_calls_append: "artifact_calls (t @ t') = artifact_calls t @ artifact_calls t'"
  by (induction t rule: artifact_calls.induct) simp_all

lemma files_opened_append: "files_opened (t @ t') = files_opened t @ files_opened t'"
  by (induction t rule: files_opened.induct) simp_all

lemma entry_names_append: "entry_names (t @ t') = entry_names t @ entry_names t'"
  by (simp add: entry_names_def entry_headers_append)

lemma prePackage_events:
  "prePackage w p = (t, r) \<Longrightarrow>
   entry_headers t = [] \<and> artifact_calls t = [] \<and> files_opened t = [] \<and>
   filter touches_archive t = []"
  by (auto simp: prePackage_def Let_def split: option.splits)

lemma cacheDependency_events:
  "cacheDependency p dep = (t, r) \<Longrightarrow>
   entry_headers t = [] \<and> commands_run t = [] \<and> artifact_calls t = [dep] \<and>
   files_opened t = [] \<and> filter touches_archive t = []"
  by (auto simp: cacheDependency_def Let_def split: sum.splits)

lemma cacheDependency_result:
  "cacheDependency p dep = (t, Inr pair) \<Longrightarrow>
   \<exists>artifact metadata. artifact_path p dep = Inr artifact \<and> metadata_path p dep = Inr metadata \<and>
     pair = [artifact, metadata]"
  by (auto simp: cacheDependency_def artifact_path_def metadata_path_def Let_def split: sum.splits)


lemma cacheDependencies_loop_events:
  "cacheDependencies_loop p deps files = (t, r) \<Longrightarrow>
   entry_headers t = [] \<and> commands_run t = [] \<and> files_opened t = [] \<and>
   filter touches_archive t = []"
proof (induction deps arbitrary: files t r)
  case Nil
  then show ?case by simp
next
  case (Cons dep deps)
  obtain t1 r1 where c: "cacheDependency p dep = (t1, r1)" by (cases "cacheDependency p dep")
  note e = cacheDependency_events [OF c]
  show ?case
  proof (cases r1)
    case (Inl err)
    with Cons.prems c e show ?thesis by simp
  next
    case (Inr pair)
    obtain t2 r2 where l: "cacheDependencies_loop p deps (files @ pair) = (t2, r2)"
      by (cases "cacheDependencies_loop p deps (files @ pair)")
    from Cons.IH [OF l] Cons.prems c e Inr l show ?thesis
      by (auto simp: entry_headers_append commands_run_append files_opened_append)
  qed
qed

lemma cacheDependencies_loop_result:
  "cacheDependencies_loop p deps files = (t, Inr r) \<Longrightarrow>
   \<exists>arts mds. map (artifact_path p) deps = map Inr arts \<and>
     map (metadata_path p) deps = map Inr mds \<and>
     r = files @ concat (map (\<lambda>(a, m). [a, m]) (zip arts mds)) \<and>
     artifact_calls t = deps"
proof (induction deps arbitrary: files t)
  case Nil
  then show ?case by simp
next
  case (Cons dep deps)
  obtain t1 r1 where c: "cacheDependency p dep = (t1, r1)" by (cases "cacheDependency p dep")
  with Cons.prems obtain pair where r1: "r1 = Inr pair" by (cases r1) auto
  obtain t2 r2 where l: "cacheDependencies_loop p deps (files @ pair) = (t2, r2)"
    by (cases "cacheDependencies_loop p deps (files @ pair)")
  with Cons.prems c r1 have t: "t = t1 @ t2" and r2: "r2 = Inr r" by auto
  from cacheDependency_result [OF c [unfolded r1]] obtain artifact metadata
    where am: "artifact_path p dep = Inr artifact" "metadata_path p dep = Inr metadata"
      "pair = [artifact, metadata]" by blast
  from Cons.IH [OF l [unfolded r2]] obtain arts mds
    where ih: "map (artifact_path p) deps = map Inr arts" "map (metadata_path p) deps = map Inr mds"
      "r = (files @ pair) @ concat (map (\<lambda>(a, m). [a, m]) (zip arts mds))" "artifact_calls t2 = deps"
    by blast
  have "map (artifact_path p) (dep # deps) = map Inr (artifact # arts)"
    "map (metadata_path p) (dep # deps) = map Inr (metadata # mds)"
    "r = files @ concat (map (\<lambda>(a, m). [a, m]) (zip (artifact # arts) (metadata # mds)))"
    "artifact_calls t = dep # deps"
    using am ih t cacheDependency_events [OF c] by (simp_all add: artifact_calls_append)
  then show ?case by blast
qed

lemma cacheDependencies_loop_succeeds:
  "\<forall>dep\<in>set deps. \<exists>pair. snd (cacheDependency p dep) = Inr pair \<Longrightarrow>
   \<exists>r. snd (cacheDependencies_loop p deps files) = Inr r"
proof (induction deps arbitrary: files)
  case Nil
  then show ?case by simp
next
  case (Cons dep deps)
  then obtain pair where "snd (cacheDependency p dep) = Inr pair" by auto
  then obtain t1 where c: "cacheDependency p dep = (t1, Inr pair)"
    by (cases "cacheDependency p dep") auto
  from Cons obtain r where "snd (cacheDependencies_loop p deps (files @ pair)) = Inr r"
    by fastforce
  with c show ?case by (auto split: prod.splits)
qed



lemma addFile_success:
  "addFile w p path = (t, None) \<Longrightarrow> entry_names t = [path]"
  by (auto simp: addFile_def Let_def entry_names_def split: sum.splits option.splits
      simp del: filepath_Join.simps)

lemma addFiles_success:
  "addFiles w p files = (t, None) \<Longrightarrow> entry_names t = files"
proof (induction files arbitrary: t)
  case Nil
  then show ?case by (simp add: entry_names_def)
next
  case (Cons f files)
  obtain t1 r1 where a: "addFile w p f = (t1, r1)" by (cases "addFile w p f")
  with Cons.prems have r1: "r1 = None" by (cases r1) auto
  obtain t2 r2 where l: "addFiles w p files = (t2, r2)" by (cases "addFiles w p files")
  with Cons.prems a r1 have "t = t1 @ t2" "r2 = None" by auto
  with Cons.IH [of t2] l addFile_success [OF a [unfolded r1]] show ?case
    by (simp add: entry_names_append)
qed



lemma createArchive_success:
  "createArchive w p files = (t, None) \<Longrightarrow> entry_names t = files"
proof -
  assume a: "createArchive w p files = (t, None)"
  then obtain archive where ap: "archivePath w p = Inr archive"
    by (cases "archivePath w p") (auto simp: createArchive_def)
  obtain t2 r2 where l: "addFiles w p files = (t2, r2)" by (cases "addFiles w p files")
  with a ap have "r2 = None" and
    "t = [FirstLine (''Creating archive '' @ archive), MkdirAll (filepath_Dir archive) 493,
          OpenFile archive {O_RDWR, O_CREATE, O_TRUNC} 420] @ t2 @
         [CloseTar, CloseGzip, CloseFile archive]"
    by (auto simp: createArchive_def Let_def split: option.splits)
  with addFiles_success [of w p files t2] l show ?thesis
    by (simp add: entry_names_def entry_headers_append)
qed




lemma createArchive_missing_argument:
  "osArgs w 1 = Inl err \<Longrightarrow> createArchive w p files = ([], Some err)"
  by (simp add: createArchive_def archivePath_def)

lemma cacheDependencies_events:
  "cacheDependencies p = (t, r) \<Longrightarrow>
   entry_headers t = [] \<and> commands_run t = [] \<and> files_opened t = [] \<and>
   filter touches_archive t = []"
  using cacheDependencies_loop_events [of p _ "[]" t r]
  by (auto simp: cacheDependencies_def split: sum.splits)

lemmas example_defs =
  example_world_def example_Packager_def example_Buildpack_def example_Info_def
  example_Cache_def example_Logger_def example_File_def example_dependency_def
  example_time_def

lemmas packager_defs =
  Create_def prePackage_def cacheDependencies_def cacheDependency_def createArchive_def
  addFile_def archivePath_def osArgs_def file_Stat_def exec_Command_def cmd_Run_def
  filepath_Base_def

lemmas path_defs =
  filepath_Rel_def filepath_Clean_def filepath_Dir_def slashed_def rel_elems_def





subsection \<open>The packaging run\<close>

text \<open>
  C3. When \<^verbatim>\<open>Create\<close> succeeds, the names of the entries written to the archive are
  the included files \<open>F\<close>, in order, followed for each declared dependency, in declaration
  order, by its artifact path and its metadata path.
\<close>

theorem Create_entries:
  assumes "Create w p = (t, None)"
  shows "\<exists>F D arts mds.
           IncludeFiles (Buildpack p) = Inr F \<and> Dependencies (Buildpack p) = Inr D \<and>
           map (artifact_path p) D = map Inr arts \<and> map (metadata_path p) D = map Inr mds \<and>
           entry_names t = F @ concat (map (\<lambda>(a, m). [a, m]) (zip arts mds))"
proof -
  obtain t1 r1 where pp: "prePackage w p = (t1, r1)" by (cases "prePackage w p")
  with assms have r1: "r1 = None" by (cases r1) (auto simp: Create_def)
  from assms pp r1 obtain F where F: "IncludeFiles (Buildpack p) = Inr F"
    by (cases "IncludeFiles (Buildpack p)") (auto simp: Create_def)
  obtain t2 r2 where cd: "cacheDependencies p = (t2, r2)" by (cases "cacheDependencies p")
  with assms pp r1 F obtain dfs where r2: "r2 = Inr dfs"
    by (cases r2) (auto simp: Create_def)
  obtain t3 r3 where ca: "createArchive w p (F @ dfs) = (t3, r3)"
    by (cases "createArchive w p (F @ dfs)")
  with assms pp r1 F cd r2 have r3: "r3 = None"
    and t: "t = [FirstLine (''Packaging '' @ PrettyVersion (Logger p) (BuildpackV (Buildpack p)))]
              @ t1 @ t2 @ t3"
    by (auto simp: Create_def)
  from cd r2 obtain D where D: "Dependencies (Buildpack p) = Inr D"
    and loop: "cacheDependencies_loop p D [] = (t2, Inr dfs)"
    by (cases "Dependencies (Buildpack p)") (auto simp: cacheDependencies_def)
  from cacheDependencies_loop_result [OF loop] obtain arts mds
    where am: "map (artifact_path p) D = map Inr arts" "map (metadata_path p) D = map Inr mds"
      "dfs = concat (map (\<lambda>(a, m). [a, m]) (zip arts mds))"
    by auto
  have "entry_names t = entry_names t3"
    using t prePackage_events [OF pp] cacheDependencies_events [OF cd]
    by (simp add: entry_names_def entry_headers_append)
  also have "\<dots> = F @ dfs" using ca r3 by (simp add: createArchive_success)
  finally show ?thesis using F D am by blast
qed

text \<open>The example run succeeds, and its archive has the two included files followed by
  the artifact and the metadata of the one dependency.\<close>

theorem Create_entries_witness:
  "snd (Create (example_world [''packager'', ''/out''])
          (example_Packager ''com.example.buildpack'' ''1.2.3'')) = None \<and>
   entry_names (fst (Create (example_world [''packager'', ''/out''])
          (example_Packager ''com.example.buildpack'' ''1.2.3''))) =
     [''buildpack.toml'', ''bin/build''] @
     concat (map (\<lambda>(a, m). [a, m])
       (zip [''cache/openjdk-jre/jre.tgz''] [''cache/openjdk-jre/dependency.toml'']))"
proof -
  let ?w = "example_world [''packager'', ''/out'']"
  let ?p = "example_Packager ''com.example.buildpack'' ''1.2.3''"
  have s: "snd (Create ?w ?p) = None"
    by (simp add: packager_defs path_defs example_defs Let_def)
  then have h: "Create ?w ?p = (fst (Create ?w ?p), None)"
    by (simp add: prod_eq_iff)
  from Create_entries [OF h] obtain F D arts mds where
    F: "IncludeFiles (Buildpack ?p) = Inr F" and D: "Dependencies (Buildpack ?p) = Inr D" and
    a: "map (artifact_path ?p) D = map Inr arts" and m: "map (metadata_path ?p) D = map Inr mds" and
    n: "entry_names (fst (Create ?w ?p)) = F @ concat (map (\<lambda>(a, m). [a, m]) (zip arts mds))"
    by blast
  from F have F': "F = [''buildpack.toml'', ''bin/build'']"
    by (simp add: example_defs)
  from D have D': "D = [example_dependency]"
    by (simp add: example_Packager_def example_Buildpack_def)
  from a D' have a': "arts = [''cache/openjdk-jre/jre.tgz'']"
    by (cases arts) (simp_all add: artifact_path_def path_defs example_defs Let_def)
  from m D' have m': "mds = [''cache/openjdk-jre/dependency.toml'']"
    by (cases mds) (simp_all add: metadata_path_def path_defs example_defs Let_def)
  from s n show ?thesis by (simp only: F' a' m')
qed

text \<open>
  C5. When the pre-package command fails (it cannot be started or exits non-zero, both of
  which are an error of \<^verbatim>\<open>cmd.Run()\<close>), \<^verbatim>\<open>Create\<close> returns that error and has
  created no directory, opened no file and written nothing at the destination.
\<close>

theorem prePackage_failure_creates_nothing:
  assumes "snd (prePackage w p) = Some err"
  shows "snd (Create w p) = Some err \<and> filter touches_archive (fst (Create w p)) = []"
proof -
  obtain t1 where pp: "prePackage w p = (t1, Some err)"
    using assms by (cases "prePackage w p") auto
  from prePackage_events [OF pp] pp show ?thesis by (simp add: Create_def)
qed

text \<open>The example run with a command that exits with status 1.\<close>

theorem prePackage_failure_creates_nothing_witness:
  "snd (Create ((example_world [''packager'', ''/out''])
          \<lparr>run_process := \<lambda>cmd. Some (Failure ''exit status 1'')\<rparr>)
          (example_Packager ''com.example.buildpack'' ''1.2.3'')) = Some (Failure ''exit status 1'') \<and>
   filter touches_archive (fst (Create ((example_world [''packager'', ''/out''])
          \<lparr>run_process := \<lambda>cmd. Some (Failure ''exit status 1'')\<rparr>)
          (example_Packager ''com.example.buildpack'' ''1.2.3''))) = []"
proof -
  have "snd (prePackage ((example_world [''packager'', ''/out''])
          \<lparr>run_process := \<lambda>cmd. Some (Failure ''exit status 1'')\<rparr>)
          (example_Packager ''com.example.buildpack'' ''1.2.3'')) = Some (Failure ''exit status 1'')"
    by (simp add: packager_defs example_defs Let_def)
  then show ?thesis by (rule prePackage_failure_creates_nothing)
qed





text \<open>
  C9. When the output directory argument is absent, so that \<^verbatim>\<open>osArgs(1)\<close> fails, and
  the earlier stages succeed, \<^verbatim>\<open>Create\<close> fails with that error only after the
  pre-package command has run and the artifact of every declared dependency has been
  requested, in order; nothing is created at the destination.
\<close>

theorem missing_argument_found_last:
  assumes "osArgs w 1 = Inl err"
    and "snd (prePackage w p) = None"
    and "IncludeFiles (Buildpack p) = Inr F"
    and "Dependencies (Buildpack p) = Inr D"
    and "\<forall>dep\<in>set D. \<exists>pair. snd (cacheDependency p dep) = Inr pair"
  shows "snd (Create w p) = Some err \<and>
         commands_run (fst (Create w p)) = commands_run (fst (prePackage w p)) \<and>
         artifact_calls (fst (Create w p)) = D \<and>
         filter touches_archive (fst (Create w p)) = []"
proof -
  obtain t1 where pp: "prePackage w p = (t1, None)"
    using assms(2) by (cases "prePackage w p") auto
  from cacheDependencies_loop_succeeds [OF assms(5), of "[]"]
  obtain t2 dfs where loop: "cacheDependencies_loop p D [] = (t2, Inr dfs)"
    by (cases "cacheDependencies_loop p D []") auto
  then have cd: "cacheDependencies p = (t2, Inr dfs)"
    using assms(4) by (simp add: cacheDependencies_def)
  have "Create w p =
      ([FirstLine (''Packaging '' @ PrettyVersion (Logger p) (BuildpackV (Buildpack p)))]
        @ t1 @ t2, Some err)"
    using pp assms(3) cd createArchive_missing_argument [OF assms(1)]
    by (simp add: Create_def)
  moreover from cacheDependencies_loop_result [OF loop] have "artifact_calls t2 = D" by blast
  ultimately show ?thesis
    using prePackage_events [OF pp] cacheDependencies_loop_events [OF loop] pp
    by (simp add: commands_run_append artifact_calls_append)
qed

text \<open>The example run without an output directory on the command line.\<close>

theorem missing_argument_found_last_witness:
  "osArgs (example_world [''packager'']) 1 = Inl MissingArgument \<and>
   snd (Create (example_world [''packager''])
          (example_Packager ''com.example.buildpack'' ''1.2.3'')) = Some MissingArgument \<and>
   map Args (commands_run (fst (Create (example_world [''packager''])
          (example_Packager ''com.example.buildpack'' ''1.2.3'')))) = [[''ci/pre package.sh'']] \<and>
   artifact_calls (fst (Create (example_world [''packager''])
          (example_Packager ''com.example.buildpack'' ''1.2.3''))) = [example_dependency] \<and>
   filter touches_archive (fst (Create (example_world [''packager''])
          (example_Packager ''com.example.buildpack'' ''1.2.3''))) = []"
proof -
  let ?w = "example_world [''packager'']"
  let ?p = "example_Packager ''com.example.buildpack'' ''1.2.3''"
  have h1: "osArgs ?w 1 = Inl MissingArgument" by (simp add: osArgs_def example_world_def)
  have h2: "snd (prePackage ?w ?p) = None" by (simp add: packager_defs example_defs Let_def)
  have h3: "IncludeFiles (Buildpack ?p) = Inr [''buildpack.toml'', ''bin/build'']"
    by (simp add: example_defs)
  have h4: "Dependencies (Buildpack ?p) = Inr [example_dependency]"
    by (simp add: example_Packager_def example_Buildpack_def)
  have h5: "\<forall>dep\<in>set [example_dependency]. \<exists>pair. snd (cacheDependency ?p dep) = Inr pair"
    by (simp add: cacheDependency_def path_defs example_defs Let_def)
  have c: "map Args (commands_run (fst (prePackage ?w ?p))) = [[''ci/pre package.sh'']]"
    by (simp add: packager_defs example_defs Let_def)
  from missing_argument_found_last [OF h1 h2 h3 h4 h5] c h1 show ?thesis by simp
qed


text \<open>
  C10. The declared pre-package command is run with an argument vector of one element, the
  whole command string: the string is not split into words, no arguments are added and no
  shell is involved. The executable is that whole string, taken as a path when it contains
  a slash and looked up in the search path, as one name, when it does not.
\<close>

theorem prePackage_single_argv:
  assumes "PrePackage (Buildpack p) = Some pp"
  shows "\<exists>cmd. commands_run (fst (prePackage w p)) = [cmd] \<and> Args cmd = [pp] \<and>
           Path cmd =
             (if filepath_Base pp = pp
              then (case exec_LookPath w pp of Inl err \<Rightarrow> pp | Inr lp \<Rightarrow> lp)
              else pp)"
  using assms by (simp add: prePackage_def Let_def exec_Command_def split: sum.splits)

text \<open>The command of the example buildpack contains a space.\<close>

theorem prePackage_single_argv_witness:
  "\<exists>cmd. commands_run (fst (prePackage (example_world [''packager'', ''/out''])
            (example_Packager ''com.example.buildpack'' ''1.2.3''))) = [cmd] \<and>
     Args cmd = [''ci/pre package.sh''] \<and> Path cmd = ''ci/pre package.sh''"
proof -
  have "PrePackage (Buildpack (example_Packager ''com.example.buildpack'' ''1.2.3''))
      = Some ''ci/pre package.sh''"
    by (simp add: example_Packager_def example_Buildpack_def)
  from prePackage_single_argv [OF this, of "example_world [''packager'', ''/out'']"]
  show ?thesis by (simp add: filepath_Base_def)
qed

subsection \<open>Relative paths of the dependencies\<close>









end
